theory Spec2Isabelle
  imports Complex_Main "HOL-Library.Sublist"
begin

section \<open>Python values used by the three stages\<close>

text \<open>
  A Python \<^verbatim>\<open>str\<close> is a sequence of Unicode code points, so a string is a list of
  natural numbers (the code points); \<open>ascii\<close> turns an ASCII literal into one.  The
  exceptions the modelled statements can raise are values of \<open>py_error\<close>.
\<close>

type_synonym codepoint = nat
type_synonym pystr = "codepoint list"

datatype py_error = ZeroDivisionError | AttributeError

definition ascii :: "string \<Rightarrow> pystr" where
  "ascii s = map of_char s"

text \<open>\<^verbatim>\<open>str.isspace\<close> on one code point: the code points that \<^verbatim>\<open>str.strip()\<close> removes.\<close>

definition py_isspace :: "codepoint \<Rightarrow> bool" where
  "py_isspace c \<longleftrightarrow>
     (9 \<le> c \<and> c \<le> 13) \<or> (28 \<le> c \<and> c \<le> 32) \<or> c = 133 \<or> c = 160 \<or> c = 5760 \<or>
     (8192 \<le> c \<and> c \<le> 8202) \<or> c = 8232 \<or> c = 8233 \<or> c = 8239 \<or> c = 8287 \<or> c = 12288"

text \<open>\<^verbatim>\<open>s.strip()\<close>: whitespace removed from both ends.\<close>

definition py_strip :: "pystr \<Rightarrow> pystr" where
  "py_strip s = rev (dropWhile py_isspace (rev (dropWhile py_isspace s)))"

text \<open>
  \<^verbatim>\<open>s.find(sub)\<close>: the lowest index at which \<open>sub\<close> starts in \<open>s\<close>, and \<open>-1\<close> when it
  occurs nowhere.  \<open>py_find_at\<close> carries the index of the position it looks at.
\<close>

fun py_find_at :: "pystr \<Rightarrow> pystr \<Rightarrow> int \<Rightarrow> int" where
  "py_find_at sub [] k = (if sub = [] then k else - 1)"
| "py_find_at sub (c # s) k = (if prefix sub (c # s) then k else py_find_at sub s (k + 1))"

definition py_find :: "pystr \<Rightarrow> pystr \<Rightarrow> int" where
  "py_find sub s = py_find_at sub s 0"

text \<open>\<^verbatim>\<open>sub in s\<close>, which is also what \<^verbatim>\<open>re.search(re.escape(sub), s)\<close> decides.\<close>

fun py_contains :: "pystr \<Rightarrow> pystr \<Rightarrow> bool" where
  "py_contains sub [] \<longleftrightarrow> sub = []"
| "py_contains sub (c # s) \<longleftrightarrow> prefix sub (c # s) \<or> py_contains sub s"

text \<open>\<^verbatim>\<open>s[i:]\<close> and \<^verbatim>\<open>s[:n]\<close>; a negative bound counts from the end and is clamped.\<close>

definition py_slice_from :: "int \<Rightarrow> 'a list \<Rightarrow> 'a list" where
  "py_slice_from i s =
     (if i < 0 then drop (nat (int (length s) + i)) s else drop (nat i) s)"

definition py_slice_to :: "int \<Rightarrow> 'a list \<Rightarrow> 'a list" where
  "py_slice_to n s =
     (if n < 0 then take (nat (int (length s) + n)) s else take (nat n) s)"

text \<open>\<^verbatim>\<open>a % b\<close> on integers: Python's result has the sign of \<open>b\<close>, as \<open>mod\<close> on \<open>int\<close>.\<close>

definition py_mod :: "int \<Rightarrow> int \<Rightarrow> py_error + int" where
  "py_mod a b = (if b = 0 then Inl ZeroDivisionError else Inr (a mod b))"

text \<open>\<^verbatim>\<open>s.split(sep)\<close> for a separator of one code point: every occurrence splits.\<close>

fun py_split :: "codepoint \<Rightarrow> pystr \<Rightarrow> pystr list" where
  "py_split sep [] = [[]]"
| "py_split sep (c # s) =
     (if c = sep then [] # py_split sep s
      else (case py_split sep s of
              [] \<Rightarrow> [[c]]
            | p # ps \<Rightarrow> (c # p) # ps))"

section \<open>Analyzer: reading the overlay-comment file (qgqx.py)\<close>

record danmu =
  content :: pystr
  time :: int

text \<open>
  Lines 22--26 of \<^verbatim>\<open>read_danmu_file\<close>:
  \<^verbatim>\<open>
  dot_pos = line.find('.')
  if dot_pos != -1: content = line[dot_pos + 1:].strip()
  else:             content = line.strip()
  \<close>
\<close>

definition danmu_content :: "pystr \<Rightarrow> pystr" where
  "danmu_content line =
     (let dot_pos = py_find (ascii ''.'') line
      in if dot_pos \<noteq> - 1 then py_strip (py_slice_from (dot_pos + 1) line)
         else py_strip line)"

text \<open>Line 30: \<^verbatim>\<open>time_stamp = (i - 1) % 1000\<close>.\<close>

definition time_stamp :: "int \<Rightarrow> py_error + int" where
  "time_stamp i = py_mod (i - 1) 1000"

text \<open>
  The body of the \<^verbatim>\<open>try\<close> for line \<open>i\<close>: the record that is appended, or the
  exception that sends control to the \<^verbatim>\<open>except\<close> branch.
\<close>

definition parse_danmu_line :: "int \<Rightarrow> pystr \<Rightarrow> py_error + danmu" where
  "parse_danmu_line i line =
     (let content = danmu_content line
      in case time_stamp i of
           Inl e \<Rightarrow> Inl e
         | Inr t \<Rightarrow> Inr \<lparr>content = content, time = t\<rparr>)"

text \<open>
  \<^verbatim>\<open>for i, line in enumerate(f, 1)\<close>: the file is the list of its decoded lines,
  \<open>i\<close> the running index, \<open>danmu_list\<close> the list appended to.  The \<^verbatim>\<open>except\<close> branch
  prints and goes on with the next line.  (A file that does not decode raises in the
  \<^verbatim>\<open>for\<close> statement itself, outside the \<^verbatim>\<open>try\<close>.)
\<close>

fun read_danmu_loop :: "int \<Rightarrow> pystr list \<Rightarrow> danmu list \<Rightarrow> danmu list" where
  "read_danmu_loop i [] danmu_list = danmu_list"
| "read_danmu_loop i (line # rest) danmu_list =
     (case parse_danmu_line i line of
        Inl e \<Rightarrow> read_danmu_loop (i + 1) rest danmu_list
      | Inr d \<Rightarrow> read_danmu_loop (i + 1) rest (danmu_list @ [d]))"

definition read_danmu_file :: "pystr list \<Rightarrow> danmu list" where
  "read_danmu_file lines = read_danmu_loop 1 lines []"

section \<open>Analyzer: sentiment classes (qgqx.py)\<close>

text \<open>
  The score is a Python \<^verbatim>\<open>float\<close>.  A finite double is an integer mantissa below
  \<open>2^53\<close> in magnitude times a power of two; \<open>float_val\<close> is the real number it
  stands for, and the comparisons \<^verbatim>\<open><\<close> and \<^verbatim>\<open>>\<close> of two finite doubles compare these
  real numbers exactly.
\<close>

datatype pyfloat = Float int int

fun float_val :: "pyfloat \<Rightarrow> real" where
  "float_val (Float m e) = of_int m * 2 powi e"

fun is_float :: "pyfloat \<Rightarrow> bool" where
  "is_float (Float m e) \<longleftrightarrow> \<bar>m\<bar> < 2 ^ 53 \<and> - 1074 \<le> e \<and> e \<le> 971"

text \<open>
  The doubles that the literals \<^verbatim>\<open>0.6\<close>, \<^verbatim>\<open>0.4\<close>, \<^verbatim>\<open>0.61\<close> and \<^verbatim>\<open>0.39\<close> denote
  (\<^verbatim>\<open>0x1.3333333333333p-1\<close>, \<^verbatim>\<open>0x1.999999999999ap-2\<close>, \<^verbatim>\<open>0x1.3851eb851eb85p-1\<close>,
  \<^verbatim>\<open>0x1.8f5c28f5c28f6p-2\<close>).
\<close>

definition lit_0_6 :: pyfloat where "lit_0_6 = Float 5404319552844595 (- 53)"
definition lit_0_4 :: pyfloat where "lit_0_4 = Float 3602879701896397 (- 53)"
definition lit_0_61 :: pyfloat where "lit_0_61 = Float 5494391545392005 (- 53)"
definition lit_0_39 :: pyfloat where "lit_0_39 = Float 3512807709348987 (- 53)"

text \<open>The three class names the function returns, as code points.\<close>

definition positive :: pystr where "positive = [27491, 38754]"
definition negative :: pystr where "negative = [36127, 38754]"
definition neutral :: pystr where "neutral = [20013, 24615]"

definition classify_sentiment :: "pyfloat \<Rightarrow> pystr" where
  "classify_sentiment score =
     (if float_val score > float_val lit_0_6 then positive
      else if float_val score < float_val lit_0_4 then negative
      else neutral)"

section \<open>Analyzer: the word-frequency report (qgqx.py)\<close>

record word_freq =
  word :: pystr
  freq :: int
  pos :: pystr

text \<open>The two column labels looked for in a header row, and the default tag.\<close>

definition word_label :: pystr where "word_label = [35789, 35821]"
definition freq_label :: pystr where "freq_label = [35789, 39057]"
definition unknown_pos :: pystr where "unknown_pos = [26410, 30693]"

text \<open>
  \<^verbatim>\<open>export_word_freq_data\<close>, lines 163--183.  \<open>to_int\<close> is Python's \<^verbatim>\<open>int()\<close> on a
  string, \<open>None\<close> where it raises \<^verbatim>\<open>ValueError\<close>; \<open>i\<close> is the index that
  \<^verbatim>\<open>enumerate(f)\<close> counts from 0.
\<close>

fun export_loop ::
  "(pystr \<Rightarrow> int option) \<Rightarrow> int \<Rightarrow> pystr list \<Rightarrow> word_freq list \<Rightarrow> word_freq list" where
  "export_loop to_int i [] word_freq_list = word_freq_list"
| "export_loop to_int i (line # rest) word_freq_list =
     (if i < 2 then export_loop to_int (i + 1) rest word_freq_list
      else if py_contains word_label line \<and> py_contains freq_label line
        then export_loop to_int (i + 1) rest word_freq_list
      else if py_strip line \<noteq> [] then
        (let parts = py_split 9 (py_strip line)
         in if length parts \<ge> 2 then
              (case to_int (parts ! 1) of
                 None \<Rightarrow> export_loop to_int (i + 1) rest word_freq_list
               | Some f \<Rightarrow>
                   export_loop to_int (i + 1) rest
                     (word_freq_list @
                      [\<lparr>word = parts ! 0, freq = f,
                        pos = (if length parts > 2 then parts ! 2 else unknown_pos)\<rparr>]))
            else export_loop to_int (i + 1) rest word_freq_list)
      else export_loop to_int (i + 1) rest word_freq_list)"

definition export_word_freq_data :: "(pystr \<Rightarrow> int option) \<Rightarrow> pystr list \<Rightarrow> word_freq list" where
  "export_word_freq_data to_int lines = export_loop to_int 0 lines []"

text \<open>
  \<^verbatim>\<open>int()\<close> on the strings used in the examples: optional surrounding whitespace, an
  optional sign, then ASCII digits; everything else of this shape that is not a
  number is refused.
\<close>

fun digits_val :: "pystr \<Rightarrow> int \<Rightarrow> int option" where
  "digits_val [] acc = Some acc"
| "digits_val (c # s) acc =
     (if 48 \<le> c \<and> c \<le> 57 then digits_val s (10 * acc + (int c - 48)) else None)"

definition ascii_int :: "pystr \<Rightarrow> int option" where
  "ascii_int s =
     (case py_strip s of
        [] \<Rightarrow> None
      | c # t \<Rightarrow>
          if c = 45 then (if t = [] then None else map_option uminus (digits_val t 0))
          else if c = 43 then (if t = [] then None else digits_val t 0)
          else digits_val (c # t) 0)"

text \<open>
  The row as the report's description words it: what one line past the two header
  lines contributes.
\<close>

definition report_row :: "(pystr \<Rightarrow> int option) \<Rightarrow> pystr \<Rightarrow> word_freq option" where
  "report_row to_int line =
     (if py_contains word_label line \<and> py_contains freq_label line then None
      else if py_strip line = [] then None
      else (let fields = py_split 9 (py_strip line)
            in if length fields < 2 then None
               else (case to_int (fields ! 1) of
                       None \<Rightarrow> None
                     | Some n \<Rightarrow>
                         Some \<lparr>word = fields ! 0, freq = n,
                               pos = (if 2 < length fields then fields ! 2 else unknown_pos)\<rparr>)))"

section \<open>Server (app.py)\<close>

text \<open>
  JSON values, and the response \<^verbatim>\<open>jsonify\<close> builds from a dictionary: the object as
  the body, served with status 200.
\<close>

datatype json = JStr pystr | JInt int | JArr "json list" | JObj "(string \<times> json) list"

record http_response =
  status_code :: nat
  body :: "(string \<times> json) list"

definition jsonify :: "(string \<times> json) list \<Rightarrow> http_response" where
  "jsonify obj = \<lparr>status_code = 200, body = obj\<rparr>"

text \<open>
  \<^verbatim>\<open>get_word_frequency\<close>; \<open>word_freq_data\<close> is the JSON array loaded at start (the
  analyzer dumps a list).
\<close>

definition get_word_frequency :: "json list \<Rightarrow> http_response" where
  "get_word_frequency word_freq_data =
     (let top_words = py_slice_to 100 word_freq_data
      in jsonify [(''status'', JStr (ascii ''success'')), (''data'', JArr top_words)])"

text \<open>
  The query string of a search request: \<open>keyword_arg\<close> is the parameter
  \<^verbatim>\<open>keyword\<close> when present; \<open>limit_arg\<close> is the parameter \<^verbatim>\<open>limit\<close> converted
  by \<^verbatim>\<open>type=int\<close>, and \<open>None\<close> when it is absent or the conversion fails (both
  make \<^verbatim>\<open>args.get\<close> return the default).
\<close>

record search_args =
  keyword_arg :: "pystr option"
  limit_arg :: "int option"

text \<open>Lines 62--66 of \<^verbatim>\<open>search_keyword\<close>, the content of one raw line.\<close>

definition search_content :: "pystr \<Rightarrow> pystr" where
  "search_content line =
     (let dot_pos = py_find (ascii ''.'') line
      in if dot_pos \<noteq> - 1 then py_strip (py_slice_from (dot_pos + 1) line)
         else py_strip line)"

text \<open>
  The loop of lines 59--79 over \<^verbatim>\<open>enumerate(bilibili_danmu, 1)\<close>: \<open>results\<close> is
  the list appended to, and the \<^verbatim>\<open>break\<close> returns it.
\<close>

fun search_loop :: "pystr \<Rightarrow> int \<Rightarrow> int \<Rightarrow> pystr list \<Rightarrow> json list \<Rightarrow> json list" where
  "search_loop keyword limit i [] results = results"
| "search_loop keyword limit i (line # rest) results =
     (let content = search_content line
      in if py_contains keyword content then
           (let results' = results @ [JObj [(''index'', JInt i), (''content'', JStr content)]]
            in if int (length results') \<ge> limit then results'
               else search_loop keyword limit (i + 1) rest results')
         else search_loop keyword limit (i + 1) rest results)"

text \<open>The message of the empty-keyword answer, as code points.\<close>

definition enter_keyword_message :: pystr where
  "enter_keyword_message = [35831, 36755, 20837, 20851, 38190, 35789]"

definition search_keyword :: "pystr list \<Rightarrow> search_args \<Rightarrow> http_response" where
  "search_keyword bilibili_danmu args =
     (let keyword = (case keyword_arg args of None \<Rightarrow> [] | Some k \<Rightarrow> k);
          limit = (case limit_arg args of None \<Rightarrow> 50 | Some l \<Rightarrow> l)
      in if keyword = [] then
           jsonify [(''status'', JStr (ascii ''error'')),
                    (''message'', JStr enter_keyword_message)]
         else
           (let results = search_loop keyword limit 1 bilibili_danmu []
            in jsonify [(''status'', JStr (ascii ''success'')),
                        (''keyword'', JStr keyword),
                        (''total'', JInt (int (length results))),
                        (''data'', JArr results)]))"

section \<open>Collector (pa.py)\<close>

subsection \<open>Overlay comments\<close>

text \<open>
  What the single request of \<^verbatim>\<open>crawl_danmu\<close> meets: \<^verbatim>\<open>requests.get\<close> or
  \<^verbatim>\<open>raise_for_status\<close> raises, \<^verbatim>\<open>etree.fromstring\<close> raises, or the document parses
  and \<^verbatim>\<open>xpath("//d")\<close> gives the \<^verbatim>\<open>d\<close> elements, each with its \<^verbatim>\<open>text\<close> (\<open>None\<close> for an
  element without text, on which \<^verbatim>\<open>.strip()\<close> raises).
\<close>

datatype danmu_fetch = Request_raises | Parse_raises | Parsed "pystr option list"

text \<open>
  The \<^verbatim>\<open>for d_tag\<close> loop: the list as appended to so far, and the exception if one
  ended the loop.  The list is mutated in place, so what was appended stays.
\<close>

fun collect_danmu :: "pystr option list \<Rightarrow> pystr list \<Rightarrow> pystr list \<times> py_error option" where
  "collect_danmu [] danmu_list = (danmu_list, None)"
| "collect_danmu (None # tags) danmu_list = (danmu_list, Some AttributeError)"
| "collect_danmu (Some text # tags) danmu_list =
     (let danmu_content = py_strip text
      in collect_danmu tags
           (if danmu_content \<noteq> [] then danmu_list @ [danmu_content] else danmu_list))"

definition crawl_danmu :: "danmu_fetch \<Rightarrow> pystr list" where
  "crawl_danmu fetched =
     (case fetched of
        Request_raises \<Rightarrow> []
      | Parse_raises \<Rightarrow> []
      | Parsed tags \<Rightarrow> fst (collect_danmu tags []))"

subsection \<open>Replies\<close>

record comment_info =
  user_name :: pystr
  comment_text :: pystr
  publish_time :: int
  like_count :: int
  reply_count :: int

text \<open>
  A reply object of a page: its \<^verbatim>\<open>uname\<close>, \<^verbatim>\<open>message\<close>, \<^verbatim>\<open>ctime\<close>, \<^verbatim>\<open>like\<close> and
  \<^verbatim>\<open>rcount\<close> (defaults filled in), or an object on which one of the accesses raises.
  The answer to one request: the fetch or the decoding raises, the status code is
  not 0, or the code is 0 and \<^verbatim>\<open>replies\<close> is the list given (empty too when the key is
  missing or null).
\<close>

datatype reply = Reply pystr pystr int int int | Malformed

datatype page_response = Fetch_raises | Status_nonzero | Replies "reply list"

text \<open>
  The \<^verbatim>\<open>for reply in replies\<close> loop, with the exception that ended it if any;
  \<open>publish_time\<close> keeps the \<^verbatim>\<open>ctime\<close> that \<^verbatim>\<open>strftime\<close> prints.
\<close>

fun add_replies :: "reply list \<Rightarrow> comment_info list \<Rightarrow> comment_info list \<times> py_error option" where
  "add_replies [] comment_list = (comment_list, None)"
| "add_replies (Malformed # replies) comment_list = (comment_list, Some AttributeError)"
| "add_replies (Reply uname message ctime like rcount # replies) comment_list =
     (let comment_info = \<lparr>user_name = uname, comment_text = py_strip message,
            publish_time = ctime, like_count = like, reply_count = rcount\<rparr>
      in add_replies replies
           (if comment_text comment_info \<noteq> [] then comment_list @ [comment_info]
            else comment_list))"

definition max_page :: nat where
  "max_page = 100"

text \<open>
  How the \<^verbatim>\<open>while\<close> loop was left (the first \<^verbatim>\<open>break\<close>, the second \<^verbatim>\<open>break\<close>, or the
  loop condition), after how many requests, with which value of \<open>page\<close>, and the
  list collected.
\<close>

datatype loop_exit = Status_exit | No_replies | Page_cap

record crawl_run =
  exit_by :: loop_exit
  requests :: nat
  pages :: nat
  comments :: "comment_info list"

text \<open>
  \<^verbatim>\<open>while page < max_page\<close>.  \<open>responses n\<close> is the answer to request number \<open>n\<close>
  (counted from 0).  A run of the loop that never ends has the value \<open>None\<close>.
\<close>

partial_function (option) crawl_loop ::
  "(nat \<Rightarrow> page_response) \<Rightarrow> nat \<Rightarrow> nat \<Rightarrow> comment_info list \<Rightarrow> crawl_run option" where
  "crawl_loop responses n page comment_list =
     (if page < max_page then
        (case responses n of
           Fetch_raises \<Rightarrow> crawl_loop responses (n + 1) page comment_list
         | Status_nonzero \<Rightarrow>
             Some \<lparr>exit_by = Status_exit, requests = n, pages = page, comments = comment_list\<rparr>
         | Replies replies \<Rightarrow>
             if replies = [] then
               Some \<lparr>exit_by = No_replies, requests = n, pages = page, comments = comment_list\<rparr>
             else
               (case add_replies replies comment_list of
                  (comment_list', Some e) \<Rightarrow> crawl_loop responses (n + 1) page comment_list'
                | (comment_list', None) \<Rightarrow> crawl_loop responses (n + 1) (page + 1) comment_list'))
      else Some \<lparr>exit_by = Page_cap, requests = n, pages = page, comments = comment_list\<rparr>)"

definition crawl_comments :: "(nat \<Rightarrow> page_response) \<Rightarrow> comment_info list option" where
  "crawl_comments responses = map_option comments (crawl_loop responses 0 0 [])"

text \<open>Whether handling a response ends in the \<^verbatim>\<open>except\<close> branch of the loop.\<close>

fun raises :: "page_response \<Rightarrow> bool" where
  "raises Fetch_raises \<longleftrightarrow> True"
| "raises Status_nonzero \<longleftrightarrow> False"
| "raises (Replies replies) \<longleftrightarrow> Malformed \<in> set replies"

text \<open>Whether a response makes the loop \<^verbatim>\<open>break\<close>.\<close>

fun breaks :: "page_response \<Rightarrow> bool" where
  "breaks Fetch_raises \<longleftrightarrow> False"
| "breaks Status_nonzero \<longleftrightarrow> True"
| "breaks (Replies replies) \<longleftrightarrow> replies = []"

text \<open>
  Response sequences in which no page is retried for ever: after every request
  there is one whose handling does not raise.
\<close>

definition retries_end :: "(nat \<Rightarrow> page_response) \<Rightarrow> bool" where
  "retries_end responses \<longleftrightarrow> (\<forall>n. \<exists>m\<ge>n. \<not> raises (responses m))"



subsection \<open>The run\<close>

text \<open>
  What \<^verbatim>\<open>main\<close> meets: the string \<^verbatim>\<open>get_video_cid\<close> returns (empty on every failure),
  the overlay fetch, and the answers of the reply API.  What it does: which
  \<^verbatim>\<open>save_data\<close> calls it makes, with which list, and whether it reaches its last
  statement or returns early.
\<close>

record world =
  cid_found :: pystr
  danmu_fetched :: danmu_fetch
  reply_pages :: "nat \<Rightarrow> page_response"

record run =
  danmu_saved :: "pystr list option"
  comments_saved :: "comment_info list option"
  finished :: bool

definition main :: "world \<Rightarrow> run option" where
  "main w =
     (let cid = cid_found w
      in if cid = [] then Some \<lparr>danmu_saved = None, comments_saved = None, finished = False\<rparr>
         else
           (let danmu_list = crawl_danmu (danmu_fetched w);
                saved1 = (if danmu_list \<noteq> [] then Some danmu_list else None)
            in case crawl_comments (reply_pages w) of
                 None \<Rightarrow> None
               | Some comment_list \<Rightarrow>
                   Some \<lparr>danmu_saved = saved1,
                         comments_saved = (if comment_list \<noteq> [] then Some comment_list else None),
                         finished = True\<rparr>))"

section \<open>Definitions used to state the properties\<close>

text \<open>
  Every match of a keyword in the file, in file order, each with the 1-based number
  of its line: the list the search would return without a limit.
\<close>

fun all_matches :: "pystr \<Rightarrow> int \<Rightarrow> pystr list \<Rightarrow> json list" where
  "all_matches keyword i [] = []"
| "all_matches keyword i (line # rest) =
     (if py_contains keyword (search_content line)
      then JObj [(''index'', JInt i), (''content'', JStr (search_content line))] #
             all_matches keyword (i + 1) rest
      else all_matches keyword (i + 1) rest)"

text \<open>
  What the reply loop's result says about the responses it consumed, for a run
  started at request \<open>n\<close> with \<open>page\<close> pages done: no earlier response made the loop
  break, \<open>pages\<close> counts the responses handled without an exception, and the exit is
  the page cap, or a response with a non-zero status, or one with no replies.
\<close>

definition stops_first :: "(nat \<Rightarrow> page_response) \<Rightarrow> nat \<Rightarrow> nat \<Rightarrow> crawl_run \<Rightarrow> bool" where
  "stops_first responses n page r \<longleftrightarrow>
     n \<le> requests r \<and>
     (\<forall>k. n \<le> k \<and> k < requests r \<longrightarrow> \<not> breaks (responses k)) \<and>
     pages r = page + length (filter (\<lambda>k. \<not> raises (responses k)) [n..<requests r]) \<and>
     (case exit_by r of
        Page_cap \<Rightarrow> pages r = max_page
      | Status_exit \<Rightarrow> pages r < max_page \<and> responses (requests r) = Status_nonzero
      | No_replies \<Rightarrow> pages r < max_page \<and> responses (requests r) = Replies [])"

text \<open>
  A response sequence for examples: the first fetch raises, the retry brings one
  reply, the next page is empty.
\<close>

definition demo_pages :: "nat \<Rightarrow> page_response" where
  "demo_pages n =
     (if n = 0 then Fetch_raises
      else if n = 1 then Replies [Reply (ascii ''ann'') (ascii '' hi '') 0 2 0]
      else Replies [])"

section \<open>Properties\<close>

subsection \<open>Strings\<close>

lemma py_find_at_absent: "c \<notin> set s \<Longrightarrow> py_find_at [c] s k = - 1"
  by (induction s arbitrary: k) auto

lemma py_find_at_first:
  "c \<notin> set pre \<Longrightarrow> py_find_at [c] (pre @ c # post) k = k + int (length pre)"
  by (induction pre arbitrary: k) auto

lemma py_contains_iff: "py_contains sub s \<longleftrightarrow> (\<exists>pre post. s = pre @ sub @ post)"
proof (induction s)
  case Nil
  then show ?case by auto
next
  case (Cons c s)
  show ?case
  proof
    assume "py_contains sub (c # s)"
    then consider "prefix sub (c # s)" | "py_contains sub s" by auto
    then show "\<exists>pre post. c # s = pre @ sub @ post"
    proof cases
      case 1
      then obtain post where "c # s = sub @ post" by (auto simp: prefix_def)
      then have "c # s = [] @ sub @ post" by simp
      then show ?thesis by blast
    next
      case 2
      with Cons.IH obtain pre post where "s = pre @ sub @ post" by auto
      then have "c # s = (c # pre) @ sub @ post" by simp
      then show ?thesis by blast
    qed
  next
    assume "\<exists>pre post. c # s = pre @ sub @ post"
    then obtain pre post where eq: "c # s = pre @ sub @ post" by auto
    show "py_contains sub (c # s)"
    proof (cases pre)
      case Nil
      with eq have "prefix sub (c # s)" by (auto simp: prefix_def)
      then show ?thesis by simp
    next
      case (Cons p pre')
      with eq have "s = pre' @ sub @ post" by simp
      with Cons.IH have "py_contains sub s" by blast
      then show ?thesis by simp
    qed
  qed
qed

lemma rev_split_while:
  "rev (dropWhile P ys) @ rev (takeWhile P ys) = rev ys"
  by (simp only: rev_append [symmetric] takeWhile_dropWhile_id)

text \<open>
What \<open>py_strip\<close> returns is the string without a run of whitespace at each end, and
  it neither starts nor ends with whitespace.
\<close>

lemma py_strip_decomp:
  "\<exists>l r. s = l @ py_strip s @ r \<and> (\<forall>c \<in> set l. py_isspace c) \<and> (\<forall>c \<in> set r. py_isspace c)"
proof -
  define d where "d = dropWhile py_isspace s"
  define l where "l = takeWhile py_isspace s"
  define r where "r = rev (takeWhile py_isspace (rev d))"
  have d: "d = py_strip s @ r"
    using rev_split_while [of py_isspace "rev d"] by (simp add: py_strip_def r_def d_def)
  have "s = l @ d" by (simp add: l_def d_def)
  with d have "s = l @ py_strip s @ r" by simp
  moreover have "\<forall>c \<in> set l. py_isspace c" by (auto simp: l_def dest: set_takeWhileD)
  moreover have "\<forall>c \<in> set r. py_isspace c" by (auto simp: r_def dest: set_takeWhileD)
  ultimately show ?thesis by blast
qed

lemma py_strip_ends:
  "py_strip s = [] \<or> (\<not> py_isspace (hd (py_strip s)) \<and> \<not> py_isspace (last (py_strip s)))"
proof (cases "py_strip s = []")
  case True then show ?thesis by simp
next
  case False
  define d where "d = dropWhile py_isspace s"
  define t where "t = dropWhile py_isspace (rev d)"
  have strip: "py_strip s = rev t" by (simp add: py_strip_def t_def d_def)
  with False have t: "t \<noteq> []" by simp
  then have l: "\<not> py_isspace (hd t)" unfolding t_def by (rule hd_dropWhile)
  from t have d: "d \<noteq> []" unfolding t_def by (cases "rev d") auto
  then have hd_d: "\<not> py_isspace (hd d)" unfolding d_def by (rule hd_dropWhile)
  have last: "last (py_strip s) = hd t" using t by (simp add: strip last_rev)
  have "d = rev t @ rev (takeWhile py_isspace (rev d))"
    using rev_split_while [of py_isspace "rev d"] by (simp add: t_def)
  then have "hd d = hd (rev t @ rev (takeWhile py_isspace (rev d)))" by (rule arg_cong)
  with t have "hd d = hd (rev t)" by simp
  with hd_d l last strip show ?thesis by simp
qed

subsection \<open>Content of a raw line\<close>

lemma danmu_content_no_dot: "46 \<notin> set line \<Longrightarrow> danmu_content line = py_strip line"
  by (simp add: danmu_content_def py_find_def ascii_def py_find_at_absent)

lemma danmu_content_dot:
  assumes "46 \<notin> set pre"
  shows "danmu_content (pre @ 46 # post) = py_strip post"
proof -
  have "nat (int (length pre) + 1) = Suc (length pre)" by simp
  with assms show ?thesis
    by (simp add: danmu_content_def py_find_def ascii_def py_find_at_first py_slice_from_def Let_def)
qed

lemma search_content_eq: "search_content line = danmu_content line"
  by (simp add: search_content_def danmu_content_def)

text \<open>
  Claim C3.  The content of a raw line is what follows its first \<open>.\<close> (code point 46),
  stripped, and the whole line stripped when it has no \<open>.\<close>; \<open>12. hello world\<close> gives
  \<open>hello world\<close> and \<open>3.5 stars!\<close> gives \<open>5 stars!\<close>; the analyzer and the search endpoint
  compute the same content for every line.
\<close>

theorem content_extraction:
  "(46 \<notin> set line \<longrightarrow> danmu_content line = py_strip line) \<and>
   (46 \<notin> set pre \<longrightarrow> danmu_content (pre @ 46 # post) = py_strip post) \<and>
   danmu_content (ascii ''12. hello world'') = ascii ''hello world'' \<and>
   danmu_content (ascii ''3.5 stars!'') = ascii ''5 stars!'' \<and>
   search_content line = danmu_content line"
proof -
  have "danmu_content (ascii ''12. hello world'') = ascii ''hello world''"
    by (simp add: danmu_content_def py_find_def ascii_def py_slice_from_def py_strip_def
        py_isspace_def Let_def)
  moreover have "danmu_content (ascii ''3.5 stars!'') = ascii ''5 stars!''"
    by (simp add: danmu_content_def py_find_def ascii_def py_slice_from_def py_strip_def
        py_isspace_def Let_def)
  ultimately show ?thesis
    by (simp add: danmu_content_no_dot danmu_content_dot search_content_eq)
qed

theorem content_extraction_witness:
  "46 \<notin> set (ascii ''no dot '') \<and>
   danmu_content (ascii ''no dot '') = ascii ''no dot'' \<and>
   46 \<notin> set (ascii ''12'') \<and>
   danmu_content (ascii ''12'' @ 46 # ascii '' a.b '') = ascii ''a.b'' \<and>
   search_content (ascii ''no dot '') = ascii ''no dot''"
  using content_extraction [of "ascii ''no dot ''" "ascii ''12''" "ascii '' a.b ''"]
  by (simp add: ascii_def py_strip_def py_isspace_def)

subsection \<open>Reading the overlay-comment file\<close>

lemma parse_danmu_line_Inr:
  "parse_danmu_line i line = Inr \<lparr>content = danmu_content line, time = (i - 1) mod 1000\<rparr>"
  by (simp add: parse_danmu_line_def time_stamp_def py_mod_def)

lemma read_danmu_loop_eq:
  "read_danmu_loop i lines acc =
   acc @ map (\<lambda>(k, l). \<lparr>content = danmu_content l, time = (i + int k - 1) mod 1000\<rparr>)
     (enumerate 0 lines)"
proof (induction lines arbitrary: i acc)
  case Nil
  then show ?case by simp
next
  case (Cons l ls)
  have "enumerate 0 (l # ls) = (0, l) # map (\<lambda>(k, x). (Suc k, x)) (enumerate 0 ls)"
    by (auto simp: enumerate_Suc_eq apfst_def map_prod_def)
  then show ?case
    by (simp add: parse_danmu_line_Inr Cons.IH case_prod_unfold o_def add.commute add.left_commute)
qed

lemma read_danmu_file_eq:
  "read_danmu_file lines =
   map (\<lambda>(k, l). \<lparr>content = danmu_content l, time = int k mod 1000\<rparr>) (enumerate 0 lines)"
  by (simp add: read_danmu_file_def read_danmu_loop_eq)

lemma read_danmu_file_nth:
  "k < length lines \<Longrightarrow>
   read_danmu_file lines ! k = \<lparr>content = danmu_content (lines ! k), time = int k mod 1000\<rparr>"
  by (simp add: read_danmu_file_eq nth_enumerate_eq)

text \<open>
  Claim C9.  The record of the \<open>i\<close>-th line (counted from 1) has the time
  \<open>(i - 1) mod 1000\<close>: 0 for line 1, 0 for line 1001 and 499 for line 1500.
\<close>

theorem synthetic_time:
  "(1 \<le> i \<and> i \<le> length lines \<longrightarrow>
      time (read_danmu_file lines ! (i - 1)) = (int i - 1) mod 1000) \<and>
   (1 \<le> length lines \<longrightarrow> time (read_danmu_file lines ! (1 - 1)) = 0) \<and>
   (1001 \<le> length lines \<longrightarrow> time (read_danmu_file lines ! (1001 - 1)) = 0) \<and>
   (1500 \<le> length lines \<longrightarrow> time (read_danmu_file lines ! (1500 - 1)) = 499) \<and>
   time_stamp (int i) = Inr ((int i - 1) mod 1000)"
proof -
  have a: "1 \<le> i \<and> i \<le> length lines \<longrightarrow>
      time (read_danmu_file lines ! (i - 1)) = (int i - 1) mod 1000"
  proof
    assume h: "1 \<le> i \<and> i \<le> length lines"
    then have "i - 1 < length lines" by arith
    then have "time (read_danmu_file lines ! (i - 1)) = int (i - 1) mod 1000"
      by (simp add: read_danmu_file_nth)
    moreover from h have "int (i - 1) = int i - 1" by (simp add: of_nat_diff)
    ultimately show "time (read_danmu_file lines ! (i - 1)) = (int i - 1) mod 1000" by simp
  qed
  have nth_time: "\<And>k. k < length lines \<Longrightarrow> time (read_danmu_file lines ! k) = int k mod 1000"
    by (simp add: read_danmu_file_nth)
  have b: "1 \<le> length lines \<longrightarrow> time (read_danmu_file lines ! (1 - 1)) = 0"
    using nth_time [of 0] by (cases lines) auto
  have c: "1001 \<le> length lines \<longrightarrow> time (read_danmu_file lines ! (1001 - 1)) = 0"
    using nth_time [of 1000] by auto
  have d: "1500 \<le> length lines \<longrightarrow> time (read_danmu_file lines ! (1500 - 1)) = 499"
    using nth_time [of 1499] by auto
  have e: "time_stamp (int i) = Inr ((int i - 1) mod 1000)"
    by (simp add: time_stamp_def py_mod_def)
  from a b c d e show ?thesis by blast
qed

theorem synthetic_time_witness:
  "1 \<le> (1500::nat) \<and> 1500 \<le> length (replicate 1500 (ascii ''7. ok'')) \<and>
   time (read_danmu_file (replicate 1500 (ascii ''7. ok'')) ! 1499) = 499 \<and>
   time (read_danmu_file (replicate 1500 (ascii ''7. ok'')) ! 0) = 0 \<and>
   time (read_danmu_file (replicate 1500 (ascii ''7. ok'')) ! 1000) = 0"
  using synthetic_time [of 1500 "replicate 1500 (ascii ''7. ok'')"]
  by simp


subsection \<open>Sentiment classes\<close>

text \<open>
  A finite double with exponent at least \<open>-g\<close> is a multiple of \<open>2^-g\<close>; one with a
  smaller exponent is smaller than \<open>2^53 / 2^g\<close> in magnitude.
\<close>

lemma float_grid:
  assumes "- int g \<le> e"
  shows "(of_int m :: real) * 2 powi e = of_int (m * 2 ^ nat (e + int g)) / 2 ^ g"
proof -
  have "(2::real) powi e = 2 powi ((e + int g) + (- int g))" by simp
  also have "\<dots> = 2 powi (e + int g) * 2 powi (- int g)"
    by (rule power_int_add) simp
  also have "2 powi (e + int g) = (2::real) ^ nat (e + int g)"
    using assms by (simp add: power_int_nonneg_exp)
  also have "(2::real) powi (- int g) = 1 / 2 ^ g"
    by (simp add: power_int_minus_divide)
  finally show ?thesis by simp
qed

lemma float_small:
  assumes m: "\<bar>m\<bar> < 2 ^ 53" and e: "e \<le> - int g"
  shows "\<bar>(of_int m :: real) * 2 powi e\<bar> < 2 ^ 53 / 2 ^ g"
proof -
  have "(2::real) powi e \<le> 2 powi (- int g)"
    using e by (intro power_int_increasing) simp_all
  also have "\<dots> = 1 / 2 ^ g" by (simp add: power_int_minus_divide)
  finally have p: "(2::real) powi e \<le> 1 / 2 ^ g" .
  have "\<bar>(of_int m :: real)\<bar> < 2 ^ 53"
    using m by (metis of_int_abs of_int_less_numeral_power_cancel_iff)
  moreover have "0 < (2::real) powi e" by simp
  ultimately have "\<bar>(of_int m :: real)\<bar> * 2 powi e < 2 ^ 53 * 2 powi e" by simp
  also have "\<dots> \<le> 2 ^ 53 * (1 / 2 ^ g)" using p by simp
  finally show ?thesis by (simp add: abs_mult)
qed

lemma lit_vals:
  "float_val lit_0_6 = 5404319552844595 / 2 ^ 53"
  "float_val lit_0_4 = 3602879701896397 / 2 ^ 53"
  "float_val lit_0_61 = 5494391545392005 / 2 ^ 53"
  "float_val lit_0_39 = 3512807709348987 / 2 ^ 53"
  using float_grid [of 53 "- 53"]
  by (simp_all add: lit_0_6_def lit_0_4_def lit_0_61_def lit_0_39_def)

text \<open>
  The four constants are the doubles nearest to the decimal literals: each is within
  half a unit in the last place of its decimal.
\<close>

lemma lit_near:
  "\<bar>float_val lit_0_6 - 6 / 10\<bar> \<le> 1 / 2 ^ 54" "is_float lit_0_6"
  "\<bar>float_val lit_0_4 - 4 / 10\<bar> \<le> 1 / 2 ^ 55" "is_float lit_0_4"
  "\<bar>float_val lit_0_61 - 61 / 100\<bar> \<le> 1 / 2 ^ 54" "is_float lit_0_61"
  "\<bar>float_val lit_0_39 - 39 / 100\<bar> \<le> 1 / 2 ^ 55" "is_float lit_0_39"
  by (simp_all add: lit_vals) (simp_all add: lit_0_6_def lit_0_4_def lit_0_61_def lit_0_39_def)

text \<open>
  No double lies strictly between the double \<open>0.6\<close> and the real number 6/10, nor
  between 4/10 and the double \<open>0.4\<close>.
\<close>

lemma above_0_6:
  assumes "is_float score" and gt: "float_val score > float_val lit_0_6"
  shows "float_val score > 6 / 10"
proof (cases score)
  case (Float m e)
  with assms have m: "\<bar>m\<bar> < 2 ^ 53" by simp
  show ?thesis
  proof (cases "- 53 \<le> e")
    case True
    define k where "k = m * 2 ^ nat (e + 53)"
    have v: "float_val score = of_int k / 2 ^ 53"
      using float_grid [of 53 e m] True by (simp add: Float k_def)
    with gt have "(5404319552844595::real) < of_int k"
      by (simp add: lit_vals divide_less_cancel)
    then have "5404319552844595 < k" by linarith
    then have "5404319552844596 \<le> k" by simp
    then have "(5404319552844596::real) \<le> of_int k" by linarith
    then have "(5404319552844596::real) / 2 ^ 53 \<le> of_int k / 2 ^ 53"
      by (simp add: divide_right_mono)
    moreover have "(6::real) / 10 < 5404319552844596 / 2 ^ 53" by simp
    ultimately show ?thesis using v by linarith
  next
    case False
    then have "e \<le> - int 54" by simp
    from float_small [OF m this] have "\<bar>float_val score\<bar> < 2 ^ 53 / 2 ^ 54"
      by (simp add: Float)
    then have "float_val score < 1 / 2" by simp
    moreover have "(1::real) / 2 < 5404319552844595 / 2 ^ 53" by simp
    ultimately show ?thesis using gt by (simp add: lit_vals)
  qed
qed

lemma below_0_4:
  assumes "is_float score" and lt: "float_val score < float_val lit_0_4"
  shows "float_val score < 4 / 10"
proof (cases score)
  case (Float m e)
  with assms have m: "\<bar>m\<bar> < 2 ^ 53" by simp
  show ?thesis
  proof (cases "- 54 \<le> e")
    case True
    define k where "k = m * 2 ^ nat (e + 54)"
    have v: "float_val score = of_int k / 2 ^ 54"
      using float_grid [of 54 e m] True by (simp add: Float k_def)
    have "float_val lit_0_4 = 7205759403792794 / 2 ^ 54" by (simp add: lit_vals)
    with lt v have "of_int k < (7205759403792794::real)"
      by (simp add: divide_less_cancel)
    then have "k < 7205759403792794" by linarith
    then have "k \<le> 7205759403792793" by simp
    then have "of_int k \<le> (7205759403792793::real)" by linarith
    then have "of_int k / 2 ^ 54 \<le> (7205759403792793::real) / 2 ^ 54"
      by (simp add: divide_right_mono)
    moreover have "(7205759403792793::real) / 2 ^ 54 < 4 / 10" by simp
    ultimately show ?thesis using v by linarith
  next
    case False
    then have "e \<le> - int 55" by simp
    from float_small [OF m this] have "\<bar>float_val score\<bar> < 2 ^ 53 / 2 ^ 55"
      by (simp add: Float)
    then have "float_val score < 1 / 4" by simp
    then show ?thesis by simp
  qed
qed

lemma class_names_differ:
  "positive \<noteq> negative" "positive \<noteq> neutral" "negative \<noteq> neutral"
  by (simp_all add: positive_def negative_def neutral_def)

text \<open>
  Claim C4.  For every score (a finite double; those in [0,1] among them), the class is
  positive exactly when the score is above 0.6, negative exactly when it is below 0.4,
  and neutral otherwise; the scores 0.6 and 0.4 are neutral, 0.61 is positive and 0.39
  is negative.
\<close>

theorem sentiment_boundaries:
  "is_float score \<Longrightarrow>
     (classify_sentiment score = positive \<longleftrightarrow> float_val score > 6 / 10) \<and>
     (classify_sentiment score = negative \<longleftrightarrow> float_val score < 4 / 10) \<and>
     (classify_sentiment score = neutral \<longleftrightarrow>
        4 / 10 \<le> float_val score \<and> float_val score \<le> 6 / 10) \<and>
     classify_sentiment lit_0_6 = neutral \<and> classify_sentiment lit_0_4 = neutral \<and>
     classify_sentiment lit_0_61 = positive \<and> classify_sentiment lit_0_39 = negative"
proof -
  assume f: "is_float score"
  have hi: "float_val score > float_val lit_0_6 \<longleftrightarrow> float_val score > 6 / 10"
    using above_0_6 [OF f] by (auto simp: lit_vals)
  have lo: "float_val score < float_val lit_0_4 \<longleftrightarrow> float_val score < 4 / 10"
    using below_0_4 [OF f] by (auto simp: lit_vals)
  have general: "(classify_sentiment score = positive \<longleftrightarrow> float_val score > 6 / 10) \<and>
     (classify_sentiment score = negative \<longleftrightarrow> float_val score < 4 / 10) \<and>
     (classify_sentiment score = neutral \<longleftrightarrow>
        4 / 10 \<le> float_val score \<and> float_val score \<le> 6 / 10)"
    unfolding classify_sentiment_def using hi lo class_names_differ by auto
  have "classify_sentiment lit_0_6 = neutral" "classify_sentiment lit_0_4 = neutral"
    "classify_sentiment lit_0_61 = positive" "classify_sentiment lit_0_39 = negative"
    by (simp_all add: classify_sentiment_def lit_vals)
  with general show ?thesis by simp
qed

theorem sentiment_boundaries_witness:
  "is_float lit_0_61 \<and> classify_sentiment lit_0_61 = positive \<and> float_val lit_0_61 > 6 / 10 \<and>
   is_float lit_0_6 \<and> classify_sentiment lit_0_6 = neutral \<and> float_val lit_0_6 \<le> 6 / 10 \<and>
   4 / 10 \<le> float_val lit_0_6"
proof -
  have a: "is_float lit_0_61" and b: "is_float lit_0_6" by (rule lit_near)+
  from sentiment_boundaries [OF a] sentiment_boundaries [OF b] a b show ?thesis by blast
qed

subsection \<open>The word-frequency report\<close>

lemma export_loop_step:
  "2 \<le> i \<Longrightarrow> export_loop to_int i (line # rest) acc =
     export_loop to_int (i + 1) rest
       (acc @ (case report_row to_int line of None \<Rightarrow> [] | Some r \<Rightarrow> [r]))"
  by (simp add: report_row_def Let_def split: option.splits)

lemma export_loop_eq:
  "0 \<le> i \<Longrightarrow> export_loop to_int i lines acc =
     acc @ List.map_filter (report_row to_int) (drop (nat (2 - i)) lines)"
proof (induction lines arbitrary: i acc)
  case Nil
  then show ?case by (simp add: List.map_filter_simps)
next
  case (Cons line rest)
  show ?case
  proof (cases "i < 2")
    case True
    then have "nat (2 - i) = Suc (nat (2 - (i + 1)))" using Cons.prems by simp
    then have "drop (nat (2 - i)) (line # rest) = drop (nat (2 - (i + 1))) rest" by simp
    moreover have "export_loop to_int i (line # rest) acc = export_loop to_int (i + 1) rest acc"
      using True by simp
    ultimately show ?thesis using Cons.IH [of "i + 1" acc] Cons.prems by simp
  next
    case False
    then have i: "2 \<le> i" by simp
    then have d: "nat (2 - i) = 0" "nat (2 - (i + 1)) = 0" by simp_all
    have "0 \<le> i + 1" using i by simp
    from Cons.IH [OF this] show ?thesis
      by (simp only: export_loop_step [OF i] d drop_0)
         (simp add: List.map_filter_simps split: option.splits)
  qed
qed

lemma report_row_None:
  "report_row to_int line = None \<longleftrightarrow>
     (py_contains word_label line \<and> py_contains freq_label line) \<or> py_strip line = [] \<or>
     length (py_split 9 (py_strip line)) < 2 \<or>
     to_int (py_split 9 (py_strip line) ! 1) = None"
  by (auto simp: report_row_def Let_def split: option.splits)

lemma report_row_Some:
  "report_row to_int line = Some r \<Longrightarrow>
     word r = py_split 9 (py_strip line) ! 0 \<and>
     to_int (py_split 9 (py_strip line) ! 1) = Some (freq r) \<and>
     pos r = (if 2 < length (py_split 9 (py_strip line))
              then py_split 9 (py_strip line) ! 2 else unknown_pos)"
  by (auto simp: report_row_def Let_def split: option.splits if_splits)

lemma row_example:
  "to_int (ascii ''120'') = Some 120 \<Longrightarrow>
   report_row to_int ([30740, 31350] @ 9 # ascii ''120'' @ 9 # [21517, 35789]) =
     Some \<lparr>word = [30740, 31350], freq = 120, pos = [21517, 35789]\<rparr>"
  by (simp add: report_row_def word_label_def freq_label_def ascii_def py_strip_def
      py_isspace_def Let_def)

lemma ascii_int_120: "ascii_int (ascii ''120'') = Some 120"
  by (simp add: ascii_int_def ascii_def py_strip_def py_isspace_def)

text \<open>
  Claim C5.  Parsing the report drops its first two lines whatever they hold, and
  each later line contributes what \<open>report_row\<close> says: nothing exactly for a line with
  both column labels, a blank line, a line with fewer than two tab-separated fields
  and one whose second field is not an integer; otherwise the first field as the word,
  the integer of the second and the third field or the default tag.  The row of the
  example gives the entry of the example.
\<close>

theorem word_report_parsing:
  "export_word_freq_data to_int lines = List.map_filter (report_row to_int) (drop 2 lines) \<and>
   (report_row to_int line = None \<longleftrightarrow>
     (py_contains word_label line \<and> py_contains freq_label line) \<or> py_strip line = [] \<or>
     length (py_split 9 (py_strip line)) < 2 \<or>
     to_int (py_split 9 (py_strip line) ! 1) = None) \<and>
   (report_row to_int line = Some r \<longrightarrow>
     word r = py_split 9 (py_strip line) ! 0 \<and>
     to_int (py_split 9 (py_strip line) ! 1) = Some (freq r) \<and>
     pos r = (if 2 < length (py_split 9 (py_strip line))
              then py_split 9 (py_strip line) ! 2 else unknown_pos)) \<and>
   (to_int (ascii ''120'') = Some 120 \<longrightarrow>
      report_row to_int ([30740, 31350] @ 9 # ascii ''120'' @ 9 # [21517, 35789]) =
        Some \<lparr>word = [30740, 31350], freq = 120, pos = [21517, 35789]\<rparr>)"
proof -
  have "export_word_freq_data to_int lines = List.map_filter (report_row to_int) (drop 2 lines)"
    using export_loop_eq [of 0 to_int lines "[]"] by (simp add: export_word_freq_data_def)
  with report_row_None [of to_int line] report_row_Some [of to_int line r] row_example [of to_int]
  show ?thesis by blast
qed

theorem word_report_parsing_witness:
  "ascii_int (ascii ''120'') = Some 120 \<and>
   report_row ascii_int ([30740, 31350] @ 9 # ascii ''120'' @ 9 # [21517, 35789]) =
     Some \<lparr>word = [30740, 31350], freq = 120, pos = [21517, 35789]\<rparr> \<and>
   export_word_freq_data ascii_int
      [ascii ''# report'' @ [10], ascii ''----'' @ [10],
       word_label @ 9 # freq_label @ [10],
       [30740, 31350] @ 9 # ascii ''120'' @ 9 # [21517, 35789] @ [10],
       ascii ''bad'' @ 9 # ascii ''x1'' @ [10],
       [10],
       ascii ''alone'' @ [10],
       ascii ''cat'' @ 9 # ascii ''7'' @ [10]] =
     [\<lparr>word = [30740, 31350], freq = 120, pos = [21517, 35789]\<rparr>,
      \<lparr>word = ascii ''cat'', freq = 7, pos = unknown_pos\<rparr>]"
proof -
  have a: "ascii_int (ascii ''120'') = Some 120" by (rule ascii_int_120)
  show ?thesis
    using word_report_parsing [of ascii_int "[ascii ''# report'' @ [10], ascii ''----'' @ [10],
       word_label @ 9 # freq_label @ [10],
       [30740, 31350] @ 9 # ascii ''120'' @ 9 # [21517, 35789] @ [10],
       ascii ''bad'' @ 9 # ascii ''x1'' @ [10],
       [10],
       ascii ''alone'' @ [10],
       ascii ''cat'' @ 9 # ascii ''7'' @ [10]]"] a
    by (simp add: List.map_filter_simps report_row_def word_label_def freq_label_def ascii_def
        py_strip_def py_isspace_def ascii_int_def Let_def unknown_pos_def)
qed

subsection \<open>The server's endpoints\<close>

text \<open>
  Claim C8.  The word-frequency endpoint answers with the first \<open>min 100 (length a)\<close>
  entries of the artifact \<open>a\<close>, as stored: never more than 100, and a prefix of the
  artifact.
\<close>

theorem word_frequency_first_100:
  "get_word_frequency word_freq_data =
     \<lparr>status_code = 200,
      body = [(''status'', JStr (ascii ''success'')),
              (''data'', JArr (take (min 100 (length word_freq_data)) word_freq_data))]\<rparr> \<and>
   length (take (min 100 (length word_freq_data)) word_freq_data) = min 100 (length word_freq_data) \<and>
   length (take (min 100 (length word_freq_data)) word_freq_data) \<le> 100 \<and>
   prefix (take (min 100 (length word_freq_data)) word_freq_data) word_freq_data"
  by (simp add: get_word_frequency_def jsonify_def py_slice_to_def take_is_prefix min_def)

text \<open>
  Claim C7.  A search request with an empty or absent keyword is answered with status
  code 200 and a body that has the keys \<open>status\<close> (\<open>error\<close>) and \<open>message\<close> and no key
  \<open>data\<close>, \<open>total\<close> or \<open>keyword\<close>.
\<close>

theorem empty_keyword_error:
  "keyword_arg args = None \<or> keyword_arg args = Some [] \<Longrightarrow>
   search_keyword bilibili_danmu args =
     \<lparr>status_code = 200,
      body = [(''status'', JStr (ascii ''error'')), (''message'', JStr enter_keyword_message)]\<rparr> \<and>
   status_code (search_keyword bilibili_danmu args) = 200 \<and>
   map_of (body (search_keyword bilibili_danmu args)) ''status'' = Some (JStr (ascii ''error'')) \<and>
   map_of (body (search_keyword bilibili_danmu args)) ''message'' = Some (JStr enter_keyword_message) \<and>
   map_of (body (search_keyword bilibili_danmu args)) ''data'' = None \<and>
   map_of (body (search_keyword bilibili_danmu args)) ''total'' = None \<and>
   map_of (body (search_keyword bilibili_danmu args)) ''keyword'' = None"
  by (auto simp: search_keyword_def jsonify_def)

theorem empty_keyword_error_witness:
  "keyword_arg \<lparr>keyword_arg = Some [], limit_arg = Some 3\<rparr> = Some [] \<and>
   status_code (search_keyword [ascii ''1. I love cats'']
      \<lparr>keyword_arg = Some [], limit_arg = Some 3\<rparr>) = 200 \<and>
   map_of (body (search_keyword [ascii ''1. I love cats'']
      \<lparr>keyword_arg = Some [], limit_arg = Some 3\<rparr>)) ''data'' = None \<and>
   keyword_arg \<lparr>keyword_arg = None, limit_arg = None\<rparr> = None \<and>
   map_of (body (search_keyword [ascii ''1. I love cats'']
      \<lparr>keyword_arg = None, limit_arg = None\<rparr>)) ''status'' = Some (JStr (ascii ''error''))"
  using empty_keyword_error [of "\<lparr>keyword_arg = Some [], limit_arg = Some 3\<rparr>" "[ascii ''1. I love cats'']"]
    empty_keyword_error [of "\<lparr>keyword_arg = None, limit_arg = None\<rparr>" "[ascii ''1. I love cats'']"]
  by simp

text \<open>
  With a limit of at least 1 the search returns the first \<open>limit\<close> matches in file
  order, and \<open>total\<close> is their number.
\<close>

lemma search_loop_capped:
  "int (length results) < limit \<Longrightarrow>
   search_loop keyword limit i lines results =
     take (nat limit) (results @ all_matches keyword i lines)"
proof (induction lines arbitrary: i results)
  case Nil
  then show ?case by simp
next
  case (Cons line rest)
  show ?case
  proof (cases "py_contains keyword (search_content line)")
    case False
    with Cons show ?thesis by simp
  next
    case True
    let ?m = "JObj [(''index'', JInt i), (''content'', JStr (search_content line))]"
    show ?thesis
    proof (cases "int (length (results @ [?m])) \<ge> limit")
      case full: True
      with Cons.prems have "nat limit = length (results @ [?m])" by simp
      then have "take (nat limit) ((results @ [?m]) @ all_matches keyword (i + 1) rest) = results @ [?m]"
        by (simp only: append_eq_conv_conj take_append) simp
      with True full show ?thesis by (simp add: Let_def)
    next
      case False
      then have "int (length (results @ [?m])) < limit" by simp
      from Cons.IH [OF this, of "i + 1"] True False show ?thesis by (simp add: Let_def)
    qed
  qed
qed

lemma search_keyword_capped:
  assumes "keyword \<noteq> []" and "1 \<le> limit"
  shows "search_keyword lines \<lparr>keyword_arg = Some keyword, limit_arg = Some limit\<rparr> =
     jsonify [(''status'', JStr (ascii ''success'')), (''keyword'', JStr keyword),
              (''total'', JInt (min limit (int (length (all_matches keyword 1 lines))))),
              (''data'', JArr (take (nat limit) (all_matches keyword 1 lines)))]"
proof -
  have "search_loop keyword limit 1 lines [] = take (nat limit) (all_matches keyword 1 lines)"
    using search_loop_capped [of "[]" limit keyword 1 lines] assms by simp
  moreover have "int (length (take (nat limit) (all_matches keyword 1 lines))) =
      min limit (int (length (all_matches keyword 1 lines)))"
    using assms by (auto simp: min_def)
  ultimately show ?thesis using assms by (simp add: search_keyword_def Let_def)
qed

lemma search_spec_example:
  "search_keyword
     [ascii ''1. I love cats'' @ [10], ascii ''2. dogs are great'' @ [10],
      ascii ''3. I love dogs'' @ [10]]
     \<lparr>keyword_arg = Some (ascii ''love''), limit_arg = Some 1\<rparr> =
   \<lparr>status_code = 200,
    body = [(''status'', JStr (ascii ''success'')), (''keyword'', JStr (ascii ''love'')),
            (''total'', JInt 1),
            (''data'', JArr [JObj [(''index'', JInt 1),
                                   (''content'', JStr (ascii ''I love cats''))]])]\<rparr>"
  by (simp add: search_keyword_def jsonify_def search_content_def py_find_def py_slice_from_def
      py_strip_def py_isspace_def ascii_def Let_def)

text \<open>
  Claim C2.  With the limit 0 the search of the example file for \<open>love\<close> still returns
  one match and reports the total 1, where the claim has \<open>min 0 2 = 0\<close> matches: the
  limit is tested only after a match has been appended.
\<close>

theorem search_limit_zero:
  "search_keyword
     [ascii ''1. I love cats'' @ [10], ascii ''2. dogs are great'' @ [10],
      ascii ''3. I love dogs'' @ [10]]
     \<lparr>keyword_arg = Some (ascii ''love''), limit_arg = Some 0\<rparr> =
   \<lparr>status_code = 200,
    body = [(''status'', JStr (ascii ''success'')), (''keyword'', JStr (ascii ''love'')),
            (''total'', JInt 1),
            (''data'', JArr [JObj [(''index'', JInt 1),
                                   (''content'', JStr (ascii ''I love cats''))]])]\<rparr> \<and>
   all_matches (ascii ''love'')  1
     [ascii ''1. I love cats'' @ [10], ascii ''2. dogs are great'' @ [10],
      ascii ''3. I love dogs'' @ [10]] =
     [JObj [(''index'', JInt 1), (''content'', JStr (ascii ''I love cats''))],
      JObj [(''index'', JInt 3), (''content'', JStr (ascii ''I love dogs''))]]"
  by (simp add: search_keyword_def jsonify_def search_content_def py_find_def py_slice_from_def
      py_strip_def py_isspace_def ascii_def Let_def)

subsection \<open>The collector\<close>

lemma add_replies_raises:
  "snd (add_replies replies comment_list) = None \<longleftrightarrow> Malformed \<notin> set replies"
  by (induction replies comment_list rule: add_replies.induct) (auto simp: Let_def)

lemma breaks_not_raises: "breaks resp \<Longrightarrow> \<not> raises resp"
  by (cases resp) auto

lemma crawl_cap:
  "\<not> page < max_page \<Longrightarrow>
   crawl_loop responses n page comment_list =
     Some \<lparr>exit_by = Page_cap, requests = n, pages = page, comments = comment_list\<rparr>"
  by (subst crawl_loop.simps) simp

lemma crawl_break:
  "page < max_page \<Longrightarrow> breaks (responses n) \<Longrightarrow>
   crawl_loop responses n page comment_list =
     Some \<lparr>exit_by = (if responses n = Status_nonzero then Status_exit else No_replies),
           requests = n, pages = page, comments = comment_list\<rparr>"
  by (subst crawl_loop.simps) (cases "responses n"; simp)

lemma crawl_retry:
  "page < max_page \<Longrightarrow> raises (responses n) \<Longrightarrow>
   \<exists>comment_list'. crawl_loop responses n page comment_list =
     crawl_loop responses (n + 1) page comment_list'"
proof (cases "responses n")
  case Fetch_raises
  assume "page < max_page"
  then have "crawl_loop responses n page comment_list =
     crawl_loop responses (n + 1) page comment_list"
    by (subst crawl_loop.simps) (simp add: Fetch_raises)
  then show ?thesis by blast
next
  case Status_nonzero
  assume "raises (responses n)"
  with Status_nonzero show ?thesis by simp
next
  case (Replies replies)
  assume p: "page < max_page" and "raises (responses n)"
  with Replies have m: "Malformed \<in> set replies" by simp
  then have ne: "replies \<noteq> []" by auto
  obtain cl e where a: "add_replies replies comment_list = (cl, e)" by (cases "add_replies replies comment_list")
  with m add_replies_raises [of replies comment_list] obtain err where "e = Some err" by (cases e) auto
  with a p ne have "crawl_loop responses n page comment_list = crawl_loop responses (n + 1) page cl"
    by (subst crawl_loop.simps) (simp add: Replies)
  then show ?thesis by blast
qed

lemma crawl_next_page:
  "page < max_page \<Longrightarrow> \<not> raises (responses n) \<Longrightarrow> \<not> breaks (responses n) \<Longrightarrow>
   \<exists>comment_list'. crawl_loop responses n page comment_list =
     crawl_loop responses (n + 1) (page + 1) comment_list'"
proof (cases "responses n")
  case Fetch_raises
  assume "\<not> raises (responses n)"
  with Fetch_raises show ?thesis by simp
next
  case Status_nonzero
  assume "\<not> breaks (responses n)"
  with Status_nonzero show ?thesis by simp
next
  case (Replies replies)
  assume p: "page < max_page" and "\<not> raises (responses n)" and "\<not> breaks (responses n)"
  with Replies have m: "Malformed \<notin> set replies" and ne: "replies \<noteq> []" by simp_all
  obtain cl e where a: "add_replies replies comment_list = (cl, e)" by (cases "add_replies replies comment_list")
  with m add_replies_raises [of replies comment_list] have "e = None" by simp
  with a p ne have "crawl_loop responses n page comment_list = crawl_loop responses (n + 1) (page + 1) cl"
    by (subst crawl_loop.simps) (simp add: Replies)
  then show ?thesis by blast
qed

lemma stops_first_break:
  assumes "page < max_page" and "breaks (responses n)"
  shows "stops_first responses n page
     \<lparr>exit_by = (if responses n = Status_nonzero then Status_exit else No_replies),
      requests = n, pages = page, comments = comment_list\<rparr>"
  using assms by (cases "responses n") (auto simp: stops_first_def)

lemma stops_first_retry:
  assumes "stops_first responses (n + 1) page r"
    and "raises (responses n)"
  shows "stops_first responses n page r"
proof -
  from assms(1) have lt: "n < requests r" by (simp add: stops_first_def)
  then have upt: "[n..<requests r] = n # [n + 1..<requests r]" by (simp add: upt_conv_Cons)
  have nb: "\<not> breaks (responses n)" using assms(2) breaks_not_raises by blast
  have "\<forall>k. n \<le> k \<and> k < requests r \<longrightarrow> \<not> breaks (responses k)"
  proof (intro allI impI)
    fix k assume k: "n \<le> k \<and> k < requests r"
    show "\<not> breaks (responses k)"
    proof (cases "k = n")
      case True with nb show ?thesis by simp
    next
      case False
      with k have "n + 1 \<le> k \<and> k < requests r" by simp
      with assms(1) show ?thesis by (simp add: stops_first_def)
    qed
  qed
  with assms lt show ?thesis by (simp add: stops_first_def upt)
qed

lemma stops_first_next_page:
  assumes "stops_first responses (n + 1) (page + 1) r"
    and "\<not> raises (responses n)" and nb: "\<not> breaks (responses n)"
  shows "stops_first responses n page r"
proof -
  from assms(1) have lt: "n < requests r" by (simp add: stops_first_def)
  then have upt: "[n..<requests r] = n # [n + 1..<requests r]" by (simp add: upt_conv_Cons)
  have "\<forall>k. n \<le> k \<and> k < requests r \<longrightarrow> \<not> breaks (responses k)"
  proof (intro allI impI)
    fix k assume k: "n \<le> k \<and> k < requests r"
    show "\<not> breaks (responses k)"
    proof (cases "k = n")
      case True with nb show ?thesis by simp
    next
      case False
      with k have "n + 1 \<le> k \<and> k < requests r" by simp
      with assms(1) show ?thesis by (simp add: stops_first_def)
    qed
  qed
  with assms lt show ?thesis by (simp add: stops_first_def upt)
qed

lemma crawl_page_ends:
  assumes p: "page < max_page"
    and next_page: "\<And>n comment_list. \<exists>r. crawl_loop responses n (page + 1) comment_list = Some r \<and>
        stops_first responses n (page + 1) r"
  shows "\<not> raises (responses (n + d)) \<Longrightarrow>
     \<exists>r. crawl_loop responses n page comment_list = Some r \<and> stops_first responses n page r"
proof (induction d arbitrary: n comment_list)
  case 0
  then have nr: "\<not> raises (responses n)" by simp
  show ?case
  proof (cases "breaks (responses n)")
    case True
    with p crawl_break [of page responses n comment_list] stops_first_break [of page responses n comment_list]
    show ?thesis by simp
  next
    case False
    from p nr False crawl_next_page [of page responses n comment_list] obtain cl where
      "crawl_loop responses n page comment_list = crawl_loop responses (n + 1) (page + 1) cl" by blast
    moreover from next_page [of "n + 1" cl] obtain r where
      "crawl_loop responses (n + 1) (page + 1) cl = Some r" "stops_first responses (n + 1) (page + 1) r"
      by blast
    ultimately show ?thesis using stops_first_next_page [of responses n page r] nr False by auto
  qed
next
  case (Suc d)
  show ?case
  proof (cases "raises (responses n)")
    case True
    from p True crawl_retry [of page responses n comment_list] obtain cl where
      eq: "crawl_loop responses n page comment_list = crawl_loop responses (n + 1) page cl" by blast
    from Suc.prems have "\<not> raises (responses ((n + 1) + d))" by simp
    from Suc.IH [OF this, of cl] obtain r where
      "crawl_loop responses (n + 1) page cl = Some r" "stops_first responses (n + 1) page r" by blast
    with eq stops_first_retry [of responses n page r] True show ?thesis by auto
  next
    case nr: False
    show ?thesis
    proof (cases "breaks (responses n)")
      case True
      with p crawl_break [of page responses n comment_list]
        stops_first_break [of page responses n comment_list]
      show ?thesis by simp
    next
      case False
      from p nr False crawl_next_page [of page responses n comment_list] obtain cl where
        "crawl_loop responses n page comment_list = crawl_loop responses (n + 1) (page + 1) cl" by blast
      moreover from next_page [of "n + 1" cl] obtain r where
        "crawl_loop responses (n + 1) (page + 1) cl = Some r" "stops_first responses (n + 1) (page + 1) r"
        by blast
      ultimately show ?thesis using stops_first_next_page [of responses n page r] nr False by auto
    qed
  qed
qed

lemma crawl_loop_ends:
  assumes "retries_end responses"
  shows "page \<le> max_page \<Longrightarrow>
     \<exists>r. crawl_loop responses n page comment_list = Some r \<and> stops_first responses n page r"
proof (induction "max_page - page" arbitrary: page n comment_list)
  case 0
  then have "page = max_page" by simp
  then show ?case
    using crawl_cap [of page responses n comment_list] by (auto simp: stops_first_def)
next
  case (Suc j)
  then have p: "page < max_page" by simp
  have next_page: "\<And>n comment_list. \<exists>r. crawl_loop responses n (page + 1) comment_list = Some r \<and>
        stops_first responses n (page + 1) r"
    using Suc.hyps(1) [of "page + 1"] Suc.hyps(2) p by simp
  from assms obtain m where "n \<le> m" "\<not> raises (responses m)"
    unfolding retries_end_def by blast
  then have "\<not> raises (responses (n + (m - n)))" by simp
  from crawl_page_ends [OF p next_page this] show ?case .
qed



lemma demo_run:
  "crawl_loop demo_pages 0 0 [] =
     Some \<lparr>exit_by = No_replies, requests = 2, pages = 1,
           comments = [\<lparr>user_name = ascii ''ann'', comment_text = ascii ''hi'',
                        publish_time = 0, like_count = 2, reply_count = 0\<rparr>]\<rparr>"
  by (simp add: crawl_loop.simps demo_pages_def max_page_def py_strip_def py_isspace_def
      ascii_def Let_def)

text \<open>
  An element without text ends the overlay loop with an exception after the document
  has parsed; what was appended before it is returned.
\<close>

lemma crawl_danmu_partial:
  "crawl_danmu (Parsed [Some (ascii '' first ''), None, Some (ascii ''third'')]) = [ascii ''first'']"
  by (simp add: crawl_danmu_def ascii_def py_strip_def py_isspace_def)

text \<open>
  Claim C6.  When the request or the parse of the overlay fetch fails, the list of
  overlay comments is empty; the run then skips the overlay save and goes on with the
  reply stage, whose result alone decides what it saves, and it reaches its last
  statement whenever the reply loop ends.
\<close>

theorem failed_overlay_fetch:
  "danmu_fetched w = Request_raises \<or> danmu_fetched w = Parse_raises \<Longrightarrow>
   crawl_danmu (danmu_fetched w) = [] \<and>
   (cid_found w \<noteq> [] \<longrightarrow>
      main w = map_option
        (\<lambda>comment_list. \<lparr>danmu_saved = None,
           comments_saved = (if comment_list \<noteq> [] then Some comment_list else None),
           finished = True\<rparr>)
        (crawl_comments (reply_pages w))) \<and>
   (cid_found w \<noteq> [] \<and> retries_end (reply_pages w) \<longrightarrow>
      (\<exists>r. main w = Some r \<and> danmu_saved r = None \<and> finished r))"
proof -
  assume failed: "danmu_fetched w = Request_raises \<or> danmu_fetched w = Parse_raises"
  then have empty: "crawl_danmu (danmu_fetched w) = []"
    by (auto simp: crawl_danmu_def)
  have run: "cid_found w \<noteq> [] \<longrightarrow>
      main w = map_option
        (\<lambda>comment_list. \<lparr>danmu_saved = None,
           comments_saved = (if comment_list \<noteq> [] then Some comment_list else None),
           finished = True\<rparr>)
        (crawl_comments (reply_pages w))"
    using empty by (cases "crawl_comments (reply_pages w)") (simp_all add: main_def Let_def)
  have "cid_found w \<noteq> [] \<and> retries_end (reply_pages w) \<longrightarrow>
      (\<exists>r. main w = Some r \<and> danmu_saved r = None \<and> finished r)"
  proof
    assume h: "cid_found w \<noteq> [] \<and> retries_end (reply_pages w)"
    then have "retries_end (reply_pages w)" by simp
    from crawl_loop_ends [OF this, of 0 0 "[]"] obtain r where
      "crawl_loop (reply_pages w) 0 0 [] = Some r" by (auto simp: max_page_def)
    then have "crawl_comments (reply_pages w) = Some (comments r)"
      by (simp add: crawl_comments_def)
    with run h show "\<exists>r. main w = Some r \<and> danmu_saved r = None \<and> finished r" by simp
  qed
  with empty run show ?thesis by simp
qed

theorem failed_overlay_fetch_witness:
  "danmu_fetched \<lparr>cid_found = ascii ''123'', danmu_fetched = Parse_raises,
      reply_pages = demo_pages\<rparr> = Parse_raises \<and>
   crawl_danmu Parse_raises = [] \<and>
   cid_found \<lparr>cid_found = ascii ''123'', danmu_fetched = Parse_raises,
      reply_pages = demo_pages\<rparr> \<noteq> [] \<and>
   main \<lparr>cid_found = ascii ''123'', danmu_fetched = Parse_raises, reply_pages = demo_pages\<rparr> =
     Some \<lparr>danmu_saved = None,
       comments_saved = Some [\<lparr>user_name = ascii ''ann'', comment_text = ascii ''hi'',
                        publish_time = 0, like_count = 2, reply_count = 0\<rparr>],
       finished = True\<rparr>"
  using failed_overlay_fetch [of "\<lparr>cid_found = ascii ''123'', danmu_fetched = Parse_raises,
      reply_pages = demo_pages\<rparr>"] demo_run
  by (simp add: crawl_comments_def ascii_def)




end
